theory Spec2Isabelle
  imports Complex_Main "HOL-Library.Sublist"
begin

section \<open>Data model (src/types.ts and the state of the App component)\<close>

text \<open>
  Strings of the application level (file names, data URLs, messages) are \<open>string\<close>.
  A thrown JavaScript error is represented by its \<open>message\<close>; the handlers only ever
  read \<open>error.message\<close> and \<open>error.name\<close>.
\<close>

type_synonym js_error = string

datatype AppStatus = IDLE | INITIALIZING | SCANNING | ORGANIZING | COMPLETED

text \<open>A \<open>File\<close> object: its \<open>name\<close> and the bytes behind it.\<close>

datatype JsFile = JsFile (file_name: string) (file_bytes: string)

text \<open>
  A \<open>FileSystemFileHandle\<close> obtained from the selected directory; it designates the
  entry of that directory with the given name.
\<close>

datatype FileSystemFileHandle = FileHandle (handle_name: string)

datatype FileSystemDirectoryHandle = DirectoryHandle (dir_name: string)

record ScanResult =
  fileName :: string
  match :: bool
  confidence :: real
  handle :: "FileSystemFileHandle option"
  previewUrl :: string

record PersonProfile =
  description :: string
  originalImage :: string

text \<open>
  The value \<open>checkFaceMatch\<close> is declared to resolve to:
  \<open>{ match: boolean; confidence: number }\<close>. Numbers are modelled by exact reals.
\<close>

datatype Verdict = Verdict (v_match: bool) (v_confidence: real)

text \<open>The \<open>useState\<close> cells of \<open>App\<close>.\<close>

record AppState =
  status :: AppStatus
  refImage :: "string option"
  folderHandle :: "FileSystemDirectoryHandle option"
  legacyFiles :: "JsFile list"
  profile :: "PersonProfile option"
  results :: "ScanResult list"
  progress :: int
  totalFiles :: nat
  processedCount :: nat
  envError :: "string option"

definition initial_state :: AppState where
  "initial_state =
     \<lparr>status = IDLE, refImage = None, folderHandle = None, legacyFiles = [],
      profile = None, results = [], progress = 0, totalFiles = 0, processedCount = 0,
      envError = None\<rparr>"

section \<open>Effects: state setter calls and alerts\<close>

text \<open>
  A handler is modelled by the sequence of effects it performs, in program order, from
  the state values captured by its closure. \<open>AppendResult r\<close> is the functional update
  \<open>setResults(prev => [...prev, r])\<close>; every other setter stores the given value.
\<close>

datatype Action =
    SetStatus AppStatus
  | SetRefImage "string option"
  | SetFolderHandle "FileSystemDirectoryHandle option"
  | SetLegacyFiles "JsFile list"
  | SetProfile PersonProfile
  | SetResults "ScanResult list"
  | AppendResult ScanResult
  | SetProgress int
  | SetTotalFiles nat
  | SetProcessedCount nat
  | SetEnvError "string option"
  | Alert string

fun apply_action :: "Action \<Rightarrow> AppState \<Rightarrow> AppState" where
  "apply_action (SetStatus x) s = s\<lparr>status := x\<rparr>"
| "apply_action (SetRefImage x) s = s\<lparr>refImage := x\<rparr>"
| "apply_action (SetFolderHandle x) s = s\<lparr>folderHandle := x\<rparr>"
| "apply_action (SetLegacyFiles x) s = s\<lparr>legacyFiles := x\<rparr>"
| "apply_action (SetProfile x) s = s\<lparr>profile := Some x\<rparr>"
| "apply_action (SetResults x) s = s\<lparr>results := x\<rparr>"
| "apply_action (AppendResult r) s = s\<lparr>results := results s @ [r]\<rparr>"
| "apply_action (SetProgress x) s = s\<lparr>progress := x\<rparr>"
| "apply_action (SetTotalFiles x) s = s\<lparr>totalFiles := x\<rparr>"
| "apply_action (SetProcessedCount x) s = s\<lparr>processedCount := x\<rparr>"
| "apply_action (SetEnvError x) s = s\<lparr>envError := x\<rparr>"
| "apply_action (Alert m) s = s"

definition run_actions :: "Action list \<Rightarrow> AppState \<Rightarrow> AppState" where
  "run_actions acts s = fold apply_action acts s"

text \<open>\<open>error.message || 'Unknown error'\<close>\<close>

definition message_or_unknown :: "js_error \<Rightarrow> string" where
  "message_or_unknown e = (if e = [] then ''Unknown error'' else e)"

section \<open>The image-name test \<open>/\.(jpe?g|png|webp)$/i\<close>\<close>

text \<open>
  The regular expression literal is kept as a syntax tree and run by a backtracking
  matcher: \<open>rx_match r s\<close> lists the remainders of \<open>s\<close> after each way \<open>r\<close> can match a
  prefix of \<open>s\<close>. Under the \<open>i\<close> flag (without \<open>u\<close>) two characters match when their
  canonical forms agree; canonicalisation maps the ASCII letters a-z to A-Z and never
  maps a non-ASCII character to an ASCII one, so every other character stands for itself.
\<close>

datatype RegExp =
    Chr char
  | Cat RegExp RegExp
  | Or RegExp RegExp
  | Optional RegExp
  | EndOfInput

definition canonicalize :: "char \<Rightarrow> char" where
  "canonicalize c =
     (case map_of (zip ''abcdefghijklmnopqrstuvwxyz'' ''ABCDEFGHIJKLMNOPQRSTUVWXYZ'') c of
        Some u \<Rightarrow> u
      | None \<Rightarrow> c)"

definition ci_eq :: "char \<Rightarrow> char \<Rightarrow> bool" where
  "ci_eq a b = (canonicalize a = canonicalize b)"

fun rx_match :: "RegExp \<Rightarrow> string \<Rightarrow> string list" where
  "rx_match (Chr c) [] = []"
| "rx_match (Chr c) (x # xs) = (if ci_eq x c then [xs] else [])"
| "rx_match (Cat a b) s = concat (map (rx_match b) (rx_match a s))"
| "rx_match (Or a b) s = rx_match a s @ rx_match b s"
| "rx_match (Optional a) s = rx_match a s @ [s]"
| "rx_match EndOfInput s = (if s = [] then [[]] else [])"

text \<open>\<open>RegExp.prototype.test\<close>: a match may start at any position of the input.\<close>

definition regexp_test :: "RegExp \<Rightarrow> string \<Rightarrow> bool" where
  "regexp_test r s = list_ex (\<lambda>i. rx_match r (drop i s) \<noteq> []) [0..<Suc (length s)]"

fun literal :: "string \<Rightarrow> RegExp \<Rightarrow> RegExp" where
  "literal [] k = k"
| "literal (c # cs) k = Cat (Chr c) (literal cs k)"

text \<open>\<open>/\.(jpe?g|png|webp)$/i\<close>\<close>

definition image_name_re :: RegExp where
  "image_name_re =
     Cat (Chr CHR ''.'')
       (Cat (Or (literal ''jp'' (Cat (Optional (Chr CHR ''e'')) (Chr CHR ''g'')))
                (Or (literal ''pn'' (Chr CHR ''g'')) (literal ''web'' (Chr CHR ''p''))))
            EndOfInput)"

definition is_image_name :: "string \<Rightarrow> bool" where
  "is_image_name nm = regexp_test image_name_re nm"



section \<open>Candidate enumeration\<close>

datatype EntryKind = KindFile | KindDirectory

text \<open>
  One entry yielded by \<open>folderHandle.values()\<close>: its \<open>kind\<close>, its \<open>name\<close>, and what
  \<open>getFile()\<close> gives for it (a thrown error or the \<open>File\<close>).
\<close>

record DirEntry =
  entry_kind :: EntryKind
  entry_name :: string
  entry_getFile :: "js_error + JsFile"

text \<open>An element of \<open>filesToScan\<close>: a bare \<open>File\<close>, or \<open>{ handle, file }\<close>.\<close>

datatype ScanItem = Bare JsFile | Handled FileSystemFileHandle JsFile

fun item_file :: "ScanItem \<Rightarrow> JsFile" where
  "item_file (Bare f) = f"
| "item_file (Handled h f) = f"

fun item_handle :: "ScanItem \<Rightarrow> FileSystemFileHandle option" where
  "item_handle (Bare f) = None"
| "item_handle (Handled h f) = Some h"

text \<open>
  The \<open>for await\<close> loop of \<open>startScan\<close> over the directory entries; a rejected
  \<open>getFile()\<close> leaves the loop with the error.
\<close>

fun scan_directory :: "DirEntry list \<Rightarrow> js_error + ScanItem list" where
  "scan_directory [] = Inr []"
| "scan_directory (e # es) =
     (if entry_kind e = KindFile \<and> is_image_name (entry_name e) then
        (case entry_getFile e of
           Inl err \<Rightarrow> Inl err
         | Inr f \<Rightarrow>
             (case scan_directory es of
                Inl err \<Rightarrow> Inl err
              | Inr items \<Rightarrow> Inr (Handled (FileHandle (entry_name e)) f # items)))
      else scan_directory es)"


section \<open>The classifier service (src/services/geminiService.ts)\<close>

text \<open>\<open>s.split(',')[1] || s\<close>: the text between the first and the second comma when
  that is a non-empty string, the whole of \<open>s\<close> otherwise.\<close>

definition inline_data :: "string \<Rightarrow> string" where
  "inline_data s =
     (let rest = dropWhile (\<lambda>c. c \<noteq> CHR '','') s in
      if rest = [] then s
      else (let seg = takeWhile (\<lambda>c. c \<noteq> CHR '','') (tl rest) in
            if seg = [] then s else seg))"

text \<open>
  \<open>analyzeFaceProfile\<close>: \<open>generateContent\<close> is the remote call; it gives a thrown error
  or the \<open>text\<close> of the response (\<open>None\<close> when undefined).
\<close>

definition analyzeFaceProfile ::
  "(string \<Rightarrow> js_error + string option) \<Rightarrow> string \<Rightarrow> js_error + string" where
  "analyzeFaceProfile generateContent base64Image =
     (case generateContent (inline_data base64Image) of
        Inl err \<Rightarrow> Inl err
      | Inr None \<Rightarrow> Inr ''No description generated.''
      | Inr (Some t) \<Rightarrow> Inr (if t = [] then ''No description generated.'' else t))"

subsection \<open>\<open>JSON.parse\<close>\<close>

text \<open>
  The response text is a JavaScript string, a sequence of UTF-16 code units; code units
  are natural numbers here, and \<open>js_str\<close> writes an ASCII literal as such a sequence.
  \<open>JSON.parse\<close> is the platform's parser, modelled after the JSON grammar of ECMA-404:
  \<open>None\<close> is the thrown \<open>SyntaxError\<close>. Numbers keep their exact decimal value, object
  members their source order (a later duplicate key overrides an earlier one).
\<close>

type_synonym js_text = "nat list"

definition js_str :: "string \<Rightarrow> js_text" where
  "js_str s = map of_char s"

datatype JSON =
    JNull
  | JBool bool
  | JNumber real
  | JString js_text
  | JArray "JSON list"
  | JObject "(js_text \<times> JSON) list"

definition is_ws :: "nat \<Rightarrow> bool" where
  "is_ws c = (c = 32 \<or> c = 9 \<or> c = 10 \<or> c = 13)"

definition skip_ws :: "js_text \<Rightarrow> js_text" where
  "skip_ws cs = dropWhile is_ws cs"

definition is_digit :: "nat \<Rightarrow> bool" where
  "is_digit c = (48 \<le> c \<and> c \<le> 57)"

definition digits_value :: "js_text \<Rightarrow> nat" where
  "digits_value ds = foldl (\<lambda>a d. 10 * a + (d - 48)) 0 ds"

definition hex_value :: "nat \<Rightarrow> nat option" where
  "hex_value c =
     (if 48 \<le> c \<and> c \<le> 57 then Some (c - 48)
      else if 65 \<le> c \<and> c \<le> 70 then Some (c - 55)
      else if 97 \<le> c \<and> c \<le> 102 then Some (c - 87)
      else None)"

definition hex4 :: "nat \<Rightarrow> nat \<Rightarrow> nat \<Rightarrow> nat \<Rightarrow> nat option" where
  "hex4 a b c d =
     (case (hex_value a, hex_value b, hex_value c, hex_value d) of
        (Some w, Some x, Some y, Some z) \<Rightarrow> Some (((w * 16 + x) * 16 + y) * 16 + z)
      | _ \<Rightarrow> None)"

text \<open>The character after a backslash other than \<open>u\<close>: \<open>" \ / b f n r t\<close>.\<close>

definition simple_escape :: "nat \<Rightarrow> nat option" where
  "simple_escape e =
     (if e = 34 then Some 34 else if e = 92 then Some 92 else if e = 47 then Some 47
      else if e = 98 then Some 8 else if e = 102 then Some 12 else if e = 110 then Some 10
      else if e = 114 then Some 13 else if e = 116 then Some 9 else None)"

definition cons_char :: "nat \<Rightarrow> (js_text \<times> js_text) option \<Rightarrow> (js_text \<times> js_text) option" where
  "cons_char c r = (case r of None \<Rightarrow> None | Some (str, rest) \<Rightarrow> Some (c # str, rest))"

text \<open>The characters of a string after its opening quote, up to the closing quote.\<close>

fun parse_chars :: "js_text \<Rightarrow> (js_text \<times> js_text) option" where
  "parse_chars [] = None"
| "parse_chars (c # cs) =
     (if c = 34 then Some ([], cs)
      else if c = 92 then
        (case cs of
           [] \<Rightarrow> None
         | e # r \<Rightarrow>
             if e = 117 then
               (case r of
                  h1 # h2 # h3 # h4 # r' \<Rightarrow>
                    (case hex4 h1 h2 h3 h4 of
                       None \<Rightarrow> None
                     | Some u \<Rightarrow> cons_char u (parse_chars r'))
                | _ \<Rightarrow> None)
             else
               (case simple_escape e of
                  None \<Rightarrow> None
                | Some u \<Rightarrow> cons_char u (parse_chars r)))
      else if c < 32 then None
      else cons_char c (parse_chars cs))"

text \<open>\<open>-? (0 | [1-9][0-9]*) (. [0-9]+)? ([eE] [+-]? [0-9]+)?\<close>\<close>

definition parse_int_part :: "js_text \<Rightarrow> (js_text \<times> js_text) option" where
  "parse_int_part cs =
     (case cs of
        [] \<Rightarrow> None
      | c # r \<Rightarrow>
          if c = 48 then Some ([c], r)
          else if is_digit c then Some (takeWhile is_digit cs, dropWhile is_digit cs)
          else None)"

definition parse_frac :: "js_text \<Rightarrow> (js_text \<times> js_text) option" where
  "parse_frac cs =
     (case cs of
        [] \<Rightarrow> Some ([], cs)
      | c # r \<Rightarrow>
          if c = 46 then
            (if takeWhile is_digit r = [] then None
             else Some (takeWhile is_digit r, dropWhile is_digit r))
          else Some ([], cs))"

definition parse_exp :: "js_text \<Rightarrow> (int \<times> js_text) option" where
  "parse_exp cs =
     (case cs of
        [] \<Rightarrow> Some (0, cs)
      | c # r \<Rightarrow>
          if c = 101 \<or> c = 69 then
            (let neg = (case r of [] \<Rightarrow> False | x # _ \<Rightarrow> x = 45);
                 r1 = (case r of [] \<Rightarrow> r | x # t \<Rightarrow> if x = 45 \<or> x = 43 then t else r)
             in if takeWhile is_digit r1 = [] then None
                else Some ((if neg then - int (digits_value (takeWhile is_digit r1))
                            else int (digits_value (takeWhile is_digit r1))),
                           dropWhile is_digit r1))
          else Some (0, cs))"

definition scale10 :: "real \<Rightarrow> int \<Rightarrow> real" where
  "scale10 m e = (if 0 \<le> e then m * 10 ^ nat e else m / 10 ^ nat (- e))"

definition parse_number :: "js_text \<Rightarrow> (real \<times> js_text) option" where
  "parse_number cs =
     (let neg = (case cs of [] \<Rightarrow> False | x # _ \<Rightarrow> x = 45);
          cs1 = (if neg then tl cs else cs)
      in case parse_int_part cs1 of
           None \<Rightarrow> None
         | Some (ip, r1) \<Rightarrow>
             (case parse_frac r1 of
                None \<Rightarrow> None
              | Some (fp, r2) \<Rightarrow>
                  (case parse_exp r2 of
                     None \<Rightarrow> None
                   | Some (e, r3) \<Rightarrow>
                       (let m = real (digits_value ip)
                                + real (digits_value fp) / 10 ^ length fp;
                            v = scale10 m e
                        in Some (if neg then - v else v, r3)))))"

definition parse_keyword :: "string \<Rightarrow> JSON \<Rightarrow> js_text \<Rightarrow> (JSON \<times> js_text) option" where
  "parse_keyword kw v cs =
     (if take (length kw) cs = js_str kw then Some (v, drop (length kw) cs) else None)"

text \<open>
  A value at the head of the input, with the input left after it. \<open>parse_elements\<close>
  reads the elements of a non-empty array up to its \<open>]\<close>, \<open>parse_members\<close> the
  members of a non-empty object up to its \<open>}\<close>. Each of them goes on only with an
  input shorter than the one it was given.
\<close>

function parse_value :: "js_text \<Rightarrow> (JSON \<times> js_text) option"
  and parse_elements :: "js_text \<Rightarrow> (JSON list \<times> js_text) option"
  and parse_members :: "js_text \<Rightarrow> ((js_text \<times> JSON) list \<times> js_text) option"
where
  "parse_value cs =
     (case cs of
        [] \<Rightarrow> None
      | c # r \<Rightarrow>
          if c = 123 then
            (case skip_ws r of
               [] \<Rightarrow> None
             | x # t \<Rightarrow>
                 if x = 125 then Some (JObject [], t)
                 else (case parse_members (skip_ws r) of
                         None \<Rightarrow> None
                       | Some (ms, rest) \<Rightarrow> Some (JObject ms, rest)))
          else if c = 91 then
            (case skip_ws r of
               [] \<Rightarrow> None
             | x # t \<Rightarrow>
                 if x = 93 then Some (JArray [], t)
                 else (case parse_elements (skip_ws r) of
                         None \<Rightarrow> None
                       | Some (vs, rest) \<Rightarrow> Some (JArray vs, rest)))
          else if c = 34 then
            (case parse_chars r of
               None \<Rightarrow> None
             | Some (str, rest) \<Rightarrow> Some (JString str, rest))
          else if c = 116 then parse_keyword ''true'' (JBool True) cs
          else if c = 102 then parse_keyword ''false'' (JBool False) cs
          else if c = 110 then parse_keyword ''null'' JNull cs
          else (case parse_number cs of
                  None \<Rightarrow> None
                | Some (x, rest) \<Rightarrow> Some (JNumber x, rest)))"
| "parse_elements cs =
     (case parse_value cs of
        None \<Rightarrow> None
      | Some (v, r) \<Rightarrow>
          if length r < length cs then
            (case skip_ws r of
               [] \<Rightarrow> None
             | x # t \<Rightarrow>
                 if x = 93 then Some ([v], t)
                 else if x = 44 then
                   (case parse_elements (skip_ws t) of
                      None \<Rightarrow> None
                    | Some (vs, rest) \<Rightarrow> Some (v # vs, rest))
                 else None)
          else None)"
| "parse_members cs =
     (case cs of
        [] \<Rightarrow> None
      | q # r0 \<Rightarrow>
          if q = 34 then
            (case parse_chars r0 of
               None \<Rightarrow> None
             | Some (key, r1) \<Rightarrow>
                 (case skip_ws r1 of
                    [] \<Rightarrow> None
                  | colon # r2 \<Rightarrow>
                      if colon = 58 \<and> length (skip_ws r2) < length cs then
                        (case parse_value (skip_ws r2) of
                           None \<Rightarrow> None
                         | Some (v, r) \<Rightarrow>
                             if length r < length cs then
                               (case skip_ws r of
                                  [] \<Rightarrow> None
                                | x # t \<Rightarrow>
                                    if x = 125 then Some ([(key, v)], t)
                                    else if x = 44 then
                                      (case parse_members (skip_ws t) of
                                         None \<Rightarrow> None
                                       | Some (ms, rest) \<Rightarrow> Some ((key, v) # ms, rest))
                                    else None)
                             else None)
                      else None))
          else None)"
  by pat_completeness auto
termination
proof (relation "measure (\<lambda>x. case x of
                    Inl cs \<Rightarrow> 2 * length cs
                  | Inr (Inl cs) \<Rightarrow> 2 * length cs + 1
                  | Inr (Inr cs) \<Rightarrow> 2 * length cs + 1)")
  show "wf (measure (\<lambda>x. case x of
                    Inl cs \<Rightarrow> 2 * length cs
                  | Inr (Inl cs) \<Rightarrow> 2 * length cs + 1
                  | Inr (Inr cs) \<Rightarrow> 2 * length cs + 1))"
    by simp
next
  fix cs :: js_text and c r x t
  assume "cs = c # r" "skip_ws r = x # t"
  then show "(Inr (Inr (skip_ws r)), Inl cs) \<in> measure (\<lambda>x. case x of
                    Inl cs \<Rightarrow> 2 * length cs
                  | Inr (Inl cs) \<Rightarrow> 2 * length cs + 1
                  | Inr (Inr cs) \<Rightarrow> 2 * length cs + 1)"
    using length_dropWhile_le [of is_ws r] by (simp add: skip_ws_def)
next
  fix cs :: js_text and c r x t
  assume "cs = c # r" "skip_ws r = x # t"
  then show "(Inr (Inl (skip_ws r)), Inl cs) \<in> measure (\<lambda>x. case x of
                    Inl cs \<Rightarrow> 2 * length cs
                  | Inr (Inl cs) \<Rightarrow> 2 * length cs + 1
                  | Inr (Inr cs) \<Rightarrow> 2 * length cs + 1)"
    using length_dropWhile_le [of is_ws r] by (simp add: skip_ws_def)
next
  fix cs :: js_text
  show "(Inl cs, Inr (Inl cs)) \<in> measure (\<lambda>x. case x of
                    Inl cs \<Rightarrow> 2 * length cs
                  | Inr (Inl cs) \<Rightarrow> 2 * length cs + 1
                  | Inr (Inr cs) \<Rightarrow> 2 * length cs + 1)"
    by simp
next
  fix cs r :: js_text and x t
  assume "length r < length cs" "skip_ws r = x # t"
  then show "(Inr (Inl (skip_ws t)), Inr (Inl cs)) \<in> measure (\<lambda>x. case x of
                    Inl cs \<Rightarrow> 2 * length cs
                  | Inr (Inl cs) \<Rightarrow> 2 * length cs + 1
                  | Inr (Inr cs) \<Rightarrow> 2 * length cs + 1)"
    using length_dropWhile_le [of is_ws r] length_dropWhile_le [of is_ws t]
    by (simp add: skip_ws_def)
next
  fix cs r2 :: js_text and colon :: nat
  assume "colon = 58 \<and> length (skip_ws r2) < length cs"
  then show "(Inl (skip_ws r2), Inr (Inr cs)) \<in> measure (\<lambda>x. case x of
                    Inl cs \<Rightarrow> 2 * length cs
                  | Inr (Inl cs) \<Rightarrow> 2 * length cs + 1
                  | Inr (Inr cs) \<Rightarrow> 2 * length cs + 1)"
    by simp
next
  fix cs r :: js_text and x t
  assume "length r < length cs" "skip_ws r = x # t"
  then show "(Inr (Inr (skip_ws t)), Inr (Inr cs)) \<in> measure (\<lambda>x. case x of
                    Inl cs \<Rightarrow> 2 * length cs
                  | Inr (Inl cs) \<Rightarrow> 2 * length cs + 1
                  | Inr (Inr cs) \<Rightarrow> 2 * length cs + 1)"
    using length_dropWhile_le [of is_ws r] length_dropWhile_le [of is_ws t]
    by (simp add: skip_ws_def)
qed

declare parse_value.simps [simp del] parse_elements.simps [simp del]
  parse_members.simps [simp del]

text \<open>The whole text must be one value between optional white space.\<close>

definition JSON_parse :: "js_text \<Rightarrow> JSON option" where
  "JSON_parse text =
     (case parse_value (skip_ws text) of
        None \<Rightarrow> None
      | Some (v, rest) \<Rightarrow> if skip_ws rest = [] then Some v else None)"

subsection \<open>\<open>checkFaceMatch\<close>\<close>

definition match_prompt :: "string \<Rightarrow> string" where
  "match_prompt profileDescription =
     ''Target Person Description: '' @ profileDescription @ [CHR 0x0A, CHR 0x0A] @
     ''Task: Determine if the person in the provided image is the SAME person as described. Return a JSON object with 'match' (boolean) and 'confidence' (number 0-1).''"

text \<open>\<open>response.text || '{"match": false, "confidence": 0}'\<close>\<close>

definition default_text :: js_text where
  "default_text = js_str ''{\"match\": false, \"confidence\": 0}''"

definition text_or_default :: "js_text option \<Rightarrow> js_text" where
  "text_or_default t =
     (case t of None \<Rightarrow> default_text | Some x \<Rightarrow> if x = [] then default_text else x)"

text \<open>\<open>{ match: false, confidence: 0 }\<close>\<close>

definition fallback_verdict :: JSON where
  "fallback_verdict = JObject [(js_str ''match'', JBool False), (js_str ''confidence'', JNumber 0)]"

text \<open>
  \<open>checkFaceMatch\<close>: \<open>generateContent\<close> is the remote call, given the inline image data
  and the prompt; it gives a thrown error or the \<open>text\<close> of the response (\<open>None\<close> when
  undefined). The \<open>try\<close> block returns what \<open>JSON.parse\<close> returns, the \<open>catch\<close> block the
  fallback.
\<close>

definition checkFaceMatch ::
  "(string \<Rightarrow> string \<Rightarrow> js_error + js_text option) \<Rightarrow> string \<Rightarrow> string \<Rightarrow> js_error + JSON" where
  "checkFaceMatch generateContent profileDescription candidateBase64 =
     (case generateContent (inline_data candidateBase64) (match_prompt profileDescription) of
        Inl err \<Rightarrow> Inl err
      | Inr text \<Rightarrow>
          Inr (case JSON_parse (text_or_default text) of
                 None \<Rightarrow> fallback_verdict
               | Some v \<Rightarrow> v))"

text \<open>
  The shape the specification promises of the result: an object whose \<open>match\<close> is a
  boolean and whose \<open>confidence\<close> is a number in \<open>[0,1]\<close>.
\<close>

definition get_member :: "(js_text \<times> JSON) list \<Rightarrow> string \<Rightarrow> JSON option" where
  "get_member ms k = map_of (rev ms) (js_str k)"

definition well_formed_verdict :: "JSON \<Rightarrow> bool" where
  "well_formed_verdict v =
     (case v of
        JObject ms \<Rightarrow>
          (case (get_member ms ''match'', get_member ms ''confidence'') of
             (Some (JBool b), Some (JNumber x)) \<Rightarrow> 0 \<le> x \<and> x \<le> 1
           | _ \<Rightarrow> False)
      | _ \<Rightarrow> False)"

section \<open>The scan (\<open>startScan\<close>)\<close>

text \<open>
  What the surroundings of one run answer:
  \<^item> \<open>describe_call\<close>: the remote call made by \<open>analyzeFaceProfile\<close>;
  \<^item> \<open>dir_values\<close>: the entries \<open>folderHandle.values()\<close> yields, in its order, or the
    error the iteration throws;
  \<^item> \<open>readAsDataURL\<close>: \<open>reader.result\<close> at \<open>loadend\<close> (\<open>None\<close> is \<open>null\<close>, a failed read);
  \<^item> \<open>face_match i d b\<close>: what awaiting \<open>checkFaceMatch(d, b)\<close> gives for candidate
    \<open>i\<close>, at its declared type: a thrown error or a verdict.
\<close>

record ScanEnv =
  describe_call :: "string \<Rightarrow> js_error + string option"
  dir_values :: "js_error + DirEntry list"
  readAsDataURL :: "JsFile \<Rightarrow> string option"
  face_match :: "nat \<Rightarrow> string \<Rightarrow> string \<Rightarrow> js_error + Verdict"

text \<open>\<open>Math.round\<close> rounds to the nearest integer, halves upwards.\<close>

definition Math_round :: "real \<Rightarrow> int" where
  "Math_round x = \<lfloor>x + 1 / 2\<rfloor>"

definition percent :: "nat \<Rightarrow> nat \<Rightarrow> int" where
  "percent k n = Math_round ((real k / real n) * 100)"

text \<open>\<open>checkFaceMatch(description, null)\<close> fails on \<open>candidateBase64.split\<close>.\<close>

definition null_split_error :: js_error where
  "null_split_error = ''Cannot read properties of null (reading 'split')''"

text \<open>The object \<open>result\<close> built for an accepted candidate.\<close>

definition make_result ::
  "JsFile \<Rightarrow> FileSystemFileHandle option \<Rightarrow> Verdict \<Rightarrow> string \<Rightarrow> ScanResult" where
  "make_result currentFile currentHandle v base64 =
     \<lparr>fileName = file_name currentFile,
      match = v_match v,
      confidence = v_confidence v,
      handle = currentHandle,
      previewUrl = base64\<rparr>"

text \<open>
  The \<open>for\<close> loop of \<open>startScan\<close> from index \<open>i\<close>: the effects it performs and the error
  that left it, if one did.
\<close>

function scan_loop ::
  "ScanEnv \<Rightarrow> string \<Rightarrow> ScanItem list \<Rightarrow> nat \<Rightarrow> Action list \<times> js_error option" where
  "scan_loop env descr filesToScan i =
     (if i < length filesToScan then
        (let item = filesToScan ! i;
             currentFile = item_file item;
             currentHandle = item_handle item;
             counters = [SetProcessedCount (i + 1),
                         SetProgress (percent (i + 1) (length filesToScan))]
         in case readAsDataURL env currentFile of
              None \<Rightarrow> (counters, Some null_split_error)
            | Some base64 \<Rightarrow>
                (case face_match env i descr base64 of
                   Inl err \<Rightarrow> (counters, Some err)
                 | Inr v \<Rightarrow>
                     (let accepted =
                            (if v_match v \<and> v_confidence v > 6 / 10
                             then [AppendResult (make_result currentFile currentHandle v base64)]
                             else []);
                          rest = scan_loop env descr filesToScan (i + 1)
                      in (counters @ accepted @ fst rest, snd rest))))
      else ([], None))"
  by pat_completeness auto
termination
  by (relation "measure (\<lambda>(env, descr, filesToScan, i). length filesToScan - i)") auto

declare scan_loop.simps [simp del]

text \<open>The list \<open>filesToScan\<close> that \<open>startScan\<close> builds.\<close>

definition enumerate_source ::
  "ScanEnv \<Rightarrow> FileSystemDirectoryHandle option \<Rightarrow> JsFile list \<Rightarrow> js_error + ScanItem list" where
  "enumerate_source env fh lf =
     (case fh of
        Some h \<Rightarrow>
          (case dir_values env of
             Inl err \<Rightarrow> Inl err
           | Inr entries \<Rightarrow> scan_directory entries)
      | None \<Rightarrow> Inr (map Bare lf))"

text \<open>The \<open>try\<close> block of \<open>startScan\<close>.\<close>

definition scan_try :: "ScanEnv \<Rightarrow> string \<Rightarrow> AppState \<Rightarrow> Action list \<times> js_error option" where
  "scan_try env img s =
     (case analyzeFaceProfile (describe_call env) img of
        Inl err \<Rightarrow> ([], Some err)
      | Inr descr \<Rightarrow>
          (let set_profile = [SetProfile \<lparr>description = descr, originalImage = img\<rparr>] in
           case enumerate_source env (folderHandle s) (legacyFiles s) of
             Inl err \<Rightarrow> (set_profile, Some err)
           | Inr filesToScan \<Rightarrow>
               (let loop = scan_loop env descr filesToScan 0 in
                (set_profile @
                 [SetTotalFiles (length filesToScan), SetStatus SCANNING] @
                 fst loop @
                 (if snd loop = None then [SetStatus COMPLETED] else []),
                 snd loop))))"

definition hasSource :: "AppState \<Rightarrow> bool" where
  "hasSource s = (folderHandle s \<noteq> None \<or> length (legacyFiles s) > 0)"

text \<open>\<open>!refImage\<close> holds for \<open>null\<close> and for the empty string.\<close>

definition startScan :: "ScanEnv \<Rightarrow> AppState \<Rightarrow> Action list" where
  "startScan env s =
     (case refImage s of
        None \<Rightarrow> []
      | Some img \<Rightarrow>
          if img = [] \<or> \<not> hasSource s then []
          else
            [SetStatus INITIALIZING, SetResults [], SetProcessedCount 0, SetProgress 0] @
            (case scan_try env img s of
               (acts, None) \<Rightarrow> acts
             | (acts, Some err) \<Rightarrow>
                 acts @ [Alert (''Scan failed: '' @ message_or_unknown err),
                         SetStatus IDLE]))"

section \<open>Organizing the matches (\<open>organizeFiles\<close>)\<close>

text \<open>
  The storage behind the selected directory: its files by name, and the content of its
  subdirectory \<open>CyberScan_Matches\<close> (\<open>None\<close> while that does not exist). A file handle of
  the selected directory reads the file of its name.
\<close>

record Storage =
  root_files :: "string \<rightharpoonup> string"
  matches_dir :: "(string \<rightharpoonup> string) option"

text \<open>
  The five awaited calls of one iteration. Each can be made to fail from outside
  (permission withdrawn, quota, lock): \<open>step_fault i st\<close> is the error thrown by step
  \<open>st\<close> of iteration \<open>i\<close>, if any; \<open>dir_fault\<close> the one thrown by \<open>getDirectoryHandle\<close>.
\<close>

datatype OrgStep = GetFile | GetFileHandle | CreateWritable | Write | Close

record OrgFaults =
  dir_fault :: "js_error option"
  step_fault :: "nat \<Rightarrow> OrgStep \<Rightarrow> js_error option"

definition null_getFile_error :: js_error where
  "null_getFile_error = ''Cannot read properties of null (reading 'getFile')''"

definition not_found_error :: js_error where
  "not_found_error = ''A requested file or directory could not be found at the time an operation was processed.''"

definition type_mismatch_error :: js_error where
  "type_mismatch_error = ''The path supplied exists, but was not an entry of requested type.''"

text \<open>
  The \<open>for ... of\<close> loop over \<open>results\<close>, on the content \<open>d\<close> of the subdirectory.
  \<open>getFileHandle(..., {create: true})\<close> makes an empty entry when there is none; the
  bytes written reach the entry when \<open>close()\<close> succeeds.
\<close>

fun organize_loop ::
  "(nat \<Rightarrow> OrgStep \<Rightarrow> js_error option) \<Rightarrow> (string \<rightharpoonup> string) \<Rightarrow> ScanResult list \<Rightarrow> nat \<Rightarrow>
   (string \<rightharpoonup> string) \<Rightarrow> (string \<rightharpoonup> string) \<times> js_error option" where
  "organize_loop flt files [] i d = (d, None)"
| "organize_loop flt files (res # rest) i d =
     (case handle res of
        None \<Rightarrow> (d, Some null_getFile_error)
      | Some h \<Rightarrow>
          (case flt i GetFile of
             Some err \<Rightarrow> (d, Some err)
           | None \<Rightarrow>
               (case files (handle_name h) of
                  None \<Rightarrow> (d, Some not_found_error)
                | Some bytes \<Rightarrow>
                    (case flt i GetFileHandle of
                       Some err \<Rightarrow> (d, Some err)
                     | None \<Rightarrow>
                         (let d1 = (if d (fileName res) = None
                                    then d(fileName res \<mapsto> []) else d)
                          in case flt i CreateWritable of
                               Some err \<Rightarrow> (d1, Some err)
                             | None \<Rightarrow>
                                 (case flt i Write of
                                    Some err \<Rightarrow> (d1, Some err)
                                  | None \<Rightarrow>
                                      (case flt i Close of
                                         Some err \<Rightarrow> (d1, Some err)
                                       | None \<Rightarrow>
                                           organize_loop flt files rest (i + 1)
                                             (d1(fileName res \<mapsto> bytes)))))))))"

text \<open>
  The \<open>try\<close> block of \<open>organizeFiles\<close>. \<open>getDirectoryHandle('CyberScan_Matches',
  {create: true})\<close> makes the subdirectory when there is none, and fails when a file has
  that name.
\<close>

definition organize_try ::
  "OrgFaults \<Rightarrow> Storage \<Rightarrow> ScanResult list \<Rightarrow> Storage \<times> js_error option" where
  "organize_try flt st rs =
     (case dir_fault flt of
        Some err \<Rightarrow> (st, Some err)
      | None \<Rightarrow>
          if root_files st ''CyberScan_Matches'' \<noteq> None then (st, Some type_mismatch_error)
          else
            (let d0 = (case matches_dir st of None \<Rightarrow> Map.empty | Some d \<Rightarrow> d);
                 out = organize_loop (step_fault flt) (root_files st) rs 0 d0
             in (st\<lparr>matches_dir := Some (fst out)\<rparr>, snd out)))"

text \<open>A number in a template literal: its decimal digits.\<close>

fun show_nat :: "nat \<Rightarrow> string" where
  "show_nat n =
     (if n < 10 then [char_of (48 + n)]
      else show_nat (n div 10) @ [char_of (48 + n mod 10)])"

declare show_nat.simps [simp del]

definition organizeFiles :: "OrgFaults \<Rightarrow> Storage \<Rightarrow> AppState \<Rightarrow> Action list \<times> Storage" where
  "organizeFiles flt st s =
     (if folderHandle s = None \<or> length (results s) = 0 then ([], st)
      else
        (let out = organize_try flt st (results s) in
         (SetStatus ORGANIZING #
          (case snd out of
             None \<Rightarrow>
               [Alert (''Success: '' @ show_nat (length (results s)) @ '' files organized.''),
                SetStatus COMPLETED]
           | Some err \<Rightarrow>
               [Alert (''Failed: '' @ message_or_unknown err), SetStatus COMPLETED]),
          fst out)))"

section \<open>The handlers of the component as a state machine\<close>










section \<open>Notions used to state the properties\<close>

text \<open>
  The verdict candidate \<open>i\<close> receives, with its index and its data URL: none when the
  read fails or the evaluation throws.
\<close>

definition verdict_at ::
  "ScanEnv \<Rightarrow> string \<Rightarrow> ScanItem list \<Rightarrow> nat \<Rightarrow> (nat \<times> string \<times> Verdict) option" where
  "verdict_at env descr fs i =
     (case readAsDataURL env (item_file (fs ! i)) of
        None \<Rightarrow> None
      | Some b \<Rightarrow>
          (case face_match env i descr b of
             Inl err \<Rightarrow> None
           | Inr v \<Rightarrow> Some (i, b, v)))"

text \<open>The verdicts of the candidates from \<open>i\<close> on, up to the first one without a verdict.\<close>

definition verdicts_from ::
  "ScanEnv \<Rightarrow> string \<Rightarrow> ScanItem list \<Rightarrow> nat \<Rightarrow> (nat \<times> string \<times> Verdict) list" where
  "verdicts_from env descr fs i =
     map the (takeWhile (\<lambda>x. x \<noteq> None) (map (verdict_at env descr fs) [i..<length fs]))"

definition verdicts_received ::
  "ScanEnv \<Rightarrow> string \<Rightarrow> ScanItem list \<Rightarrow> (nat \<times> string \<times> Verdict) list" where
  "verdicts_received env descr fs = verdicts_from env descr fs 0"

text \<open>The result built for candidate \<open>i\<close> from its data URL and verdict.\<close>

definition result_for :: "ScanItem list \<Rightarrow> nat \<times> string \<times> Verdict \<Rightarrow> ScanResult" where
  "result_for fs x =
     (case x of (i, b, v) \<Rightarrow> make_result (item_file (fs ! i)) (item_handle (fs ! i)) v b)"




text \<open>The bytes read through the handle of a result, from the files of the directory.\<close>

definition copy_of :: "(string \<rightharpoonup> string) \<Rightarrow> ScanResult \<Rightarrow> string option" where
  "copy_of files r = (case handle r of None \<Rightarrow> None | Some h \<Rightarrow> files (handle_name h))"

text \<open>
  The content of the subdirectory after the results \<open>rs\<close> have been copied into \<open>d\<close>
  one after the other, each under its \<open>fileName\<close>.
\<close>

definition written ::
  "(string \<rightharpoonup> string) \<Rightarrow> ScanResult list \<Rightarrow> (string \<rightharpoonup> string) \<Rightarrow> (string \<rightharpoonup> string)" where
  "written files rs d =
     fold (\<lambda>r m. case copy_of files r of None \<Rightarrow> m | Some b \<Rightarrow> m(fileName r \<mapsto> b)) rs d"

text \<open>Iteration \<open>i\<close> of the loop, on result \<open>r\<close>, goes through: every step succeeds.\<close>

definition iteration_ok ::
  "(nat \<Rightarrow> OrgStep \<Rightarrow> js_error option) \<Rightarrow> (string \<rightharpoonup> string) \<Rightarrow> nat \<Rightarrow> ScanResult \<Rightarrow> bool" where
  "iteration_ok flt files i r =
     (copy_of files r \<noteq> None \<and>
      flt i GetFile = None \<and> flt i GetFileHandle = None \<and> flt i CreateWritable = None \<and>
      flt i Write = None \<and> flt i Close = None)"

text \<open>The subdirectory as \<open>getDirectoryHandle\<close> finds or makes it.\<close>

definition initial_dir :: "Storage \<Rightarrow> (string \<rightharpoonup> string)" where
  "initial_dir st = (case matches_dir st of None \<Rightarrow> Map.empty | Some d \<Rightarrow> d)"





section \<open>Sample runs\<close>

definition sample_entry :: "EntryKind \<Rightarrow> string \<Rightarrow> DirEntry" where
  "sample_entry k nm =
     \<lparr>entry_kind = k, entry_name = nm, entry_getFile = Inr (JsFile nm (''bytes of '' @ nm))\<rparr>"

definition sample_env :: "DirEntry list \<Rightarrow> (nat \<Rightarrow> js_error + Verdict) \<Rightarrow> ScanEnv" where
  "sample_env entries verdicts =
     \<lparr>describe_call = (\<lambda>d. Inr (Some ''round face, brown eyes'')),
      dir_values = Inr entries,
      readAsDataURL = (\<lambda>f. Some (''data:;base64,'' @ file_bytes f)),
      face_match = (\<lambda>i d b. verdicts i)\<rparr>"

definition sample_state :: AppState where
  "sample_state =
     initial_state\<lparr>refImage := Some ''data:image/jpeg;base64,AAAA'',
                   folderHandle := Some (DirectoryHandle ''photos'')\<rparr>"



definition sample_two :: "DirEntry list" where
  "sample_two = [sample_entry KindFile ''a.jpg'', sample_entry KindFile ''b.png'']"

text \<open>Candidate 1 is accepted, the evaluation of candidate 2 throws.\<close>

definition sample_verdicts_abort :: "nat \<Rightarrow> js_error + Verdict" where
  "sample_verdicts_abort i =
     (if i = 0 then Inr (Verdict True (9 / 10)) else Inl ''quota exceeded'')"

definition sample_no_images :: "DirEntry list" where
  "sample_no_images =
     [sample_entry KindFile ''notes.txt'', sample_entry KindDirectory ''album.png'']"

text \<open>Classifier answers: the text \<open>null\<close>, and the text \<open>not-json\<close>.\<close>

definition null_response :: "string \<Rightarrow> string \<Rightarrow> js_error + js_text option" where
  "null_response dat prompt = Inr (Some (js_str ''null''))"

definition garbage_response :: "string \<Rightarrow> string \<Rightarrow> js_error + js_text option" where
  "garbage_response dat prompt = Inr (Some (js_str ''not-json''))"



text \<open>
  A completed scan with the two matches \<open>a.jpg\<close> and \<open>b.png\<close>, the storage behind it,
  and two fault plans: none, and a failing \<open>write\<close> in iteration \<open>k\<close>.
\<close>

definition sample_results :: "ScanResult list" where
  "sample_results =
     [make_result (JsFile ''a.jpg'' ''bytes of a.jpg'') (Some (FileHandle ''a.jpg''))
        (Verdict True (9 / 10)) ''data:;base64,bytes of a.jpg'',
      make_result (JsFile ''b.png'' ''bytes of b.png'') (Some (FileHandle ''b.png''))
        (Verdict True (8 / 10)) ''data:;base64,bytes of b.png'']"

definition sample_completed :: AppState where
  "sample_completed = sample_state\<lparr>status := COMPLETED, results := sample_results\<rparr>"

definition sample_storage :: Storage where
  "sample_storage =
     \<lparr>root_files = [''a.jpg'' \<mapsto> ''bytes of a.jpg'', ''b.png'' \<mapsto> ''bytes of b.png''],
      matches_dir = None\<rparr>"


definition write_fault :: "nat \<Rightarrow> OrgFaults" where
  "write_fault k =
     \<lparr>dir_fault = None,
      step_fault = (\<lambda>i st. if i = k \<and> st = Write then Some ''disk full'' else None)\<rparr>"


section \<open>Running effect sequences\<close>

lemma run_actions_Nil [simp]: "run_actions [] s = s"
  by (simp add: run_actions_def)

lemma run_actions_Cons [simp]: "run_actions (a # acts) s = run_actions acts (apply_action a s)"
  by (simp add: run_actions_def)

lemma run_actions_append: "run_actions (xs @ ys) s = run_actions ys (run_actions xs s)"
  by (simp add: run_actions_def)

section \<open>The scan loop, step by step\<close>

lemma verdicts_from_done: "\<not> i < length fs \<Longrightarrow> verdicts_from env d fs i = []"
  by (simp add: verdicts_from_def)

lemma verdicts_from_step:
  "i < length fs \<Longrightarrow>
   verdicts_from env d fs i =
     (case verdict_at env d fs i of
        None \<Rightarrow> []
      | Some x \<Rightarrow> x # verdicts_from env d fs (Suc i))"
  by (simp add: verdicts_from_def upt_conv_Cons split: option.splits)

lemma scan_loop_done: "\<not> i < length fs \<Longrightarrow> scan_loop env d fs i = ([], None)"
  by (simp add: scan_loop.simps)

lemma scan_loop_failed:
  "i < length fs \<Longrightarrow> verdict_at env d fs i = None \<Longrightarrow>
   fst (scan_loop env d fs i) =
     [SetProcessedCount (i + 1), SetProgress (percent (i + 1) (length fs))] \<and>
   snd (scan_loop env d fs i) \<noteq> None"
  by (subst (1 2) scan_loop.simps)
     (auto simp: verdict_at_def Let_def split: option.splits sum.splits)

lemma scan_loop_verdict:
  "i < length fs \<Longrightarrow> verdict_at env d fs i = Some (j, b, v) \<Longrightarrow>
   scan_loop env d fs i =
     ([SetProcessedCount (i + 1), SetProgress (percent (i + 1) (length fs))] @
      (if v_match v \<and> v_confidence v > 6 / 10
       then [AppendResult (result_for fs (i, b, v))] else []) @
      fst (scan_loop env d fs (i + 1)),
      snd (scan_loop env d fs (i + 1)))"
  by (subst scan_loop.simps)
     (auto simp: verdict_at_def Let_def result_for_def split: option.splits sum.splits)

lemma verdict_at_index: "verdict_at env d fs i = Some (j, b, v) \<Longrightarrow> j = i"
  by (auto simp: verdict_at_def split: option.splits sum.splits)

lemma scan_loop_results:
  "results (run_actions (fst (scan_loop env d fs i)) s) =
   results s @
   [result_for fs (j, b, v). (j, b, v) \<leftarrow> verdicts_from env d fs i,
      v_match v \<and> v_confidence v > 6 / 10]"
proof (induction "length fs - i" arbitrary: i s)
  case 0
  then show ?case by (simp add: scan_loop_done verdicts_from_done)
next
  case (Suc n)
  then have lt: "i < length fs" by simp
  show ?case
  proof (cases "verdict_at env d fs i")
    case None
    then show ?thesis using lt
      by (simp add: scan_loop_failed verdicts_from_step)
  next
    case (Some x)
    obtain j b v where x: "x = (j, b, v)" by (cases x)
    have j: "j = i" using Some x verdict_at_index by blast
    have n: "n = length fs - (i + 1)" using Suc.hyps(2) by simp
    show ?thesis using lt Some x j Suc.hyps(1) [OF n]
      by (simp add: scan_loop_verdict verdicts_from_step run_actions_append)
  qed
qed

lemma startScan_enumerated:
  assumes "refImage s = Some img" and "img \<noteq> []" and "hasSource s"
    and "analyzeFaceProfile (describe_call env) img = Inr d"
    and "enumerate_source env (folderHandle s) (legacyFiles s) = Inr fs"
  shows "startScan env s =
     [SetStatus INITIALIZING, SetResults [], SetProcessedCount 0, SetProgress 0,
      SetProfile \<lparr>description = d, originalImage = img\<rparr>,
      SetTotalFiles (length fs), SetStatus SCANNING] @
     fst (scan_loop env d fs 0) @
     (case snd (scan_loop env d fs 0) of
        None \<Rightarrow> [SetStatus COMPLETED]
      | Some err \<Rightarrow> [Alert (''Scan failed: '' @ message_or_unknown err), SetStatus IDLE])"
  using assms by (simp add: startScan_def scan_try_def Let_def split: option.splits)

lemma results_after_loop:
  "results (run_actions
     (case e of None \<Rightarrow> [SetStatus COMPLETED]
      | Some err \<Rightarrow> [Alert (''Scan failed: '' @ message_or_unknown err), SetStatus IDLE]) s)
   = results s"
  by (cases e) simp_all

lemma scan_loop_abort:
  assumes "k < length fs" and "verdict_at env d fs k = None"
  shows "i \<le> k \<Longrightarrow> (\<forall>j. i \<le> j \<and> j < k \<longrightarrow> verdict_at env d fs j \<noteq> None) \<Longrightarrow>
     snd (scan_loop env d fs i) \<noteq> None \<and>
     processedCount (run_actions (fst (scan_loop env d fs i)) s) = k + 1 \<and>
     (\<forall>j. SetProcessedCount j \<in> set (fst (scan_loop env d fs i)) \<longrightarrow> j \<le> k + 1) \<and>
     map fst (verdicts_from env d fs i) = [i..<k]"
proof (induction "k - i" arbitrary: i s)
  case 0
  then have "i = k" by simp
  then show ?case using assms
    by (simp add: scan_loop_failed verdicts_from_step)
next
  case (Suc n)
  then have lt: "i < k" by simp
  then have il: "i < length fs" using assms(1) by simp
  from Suc.prems(2) lt obtain x where x: "verdict_at env d fs i = Some x" by auto
  obtain j b v where xe: "x = (j, b, v)" by (cases x)
  have n: "n = k - (i + 1)" using Suc.hyps(2) by simp
  have le: "i + 1 \<le> k" using lt by simp
  have rest: "\<forall>j. i + 1 \<le> j \<and> j < k \<longrightarrow> verdict_at env d fs j \<noteq> None"
    using Suc.prems(2) by simp
  note ih = Suc.hyps(1) [OF n le rest]
  have idx: "j = i" using x xe verdict_at_index by blast
  show ?case using il x xe idx ih lt
    by (auto simp: scan_loop_verdict verdicts_from_step run_actions_append upt_conv_Cons)
qed

lemma after_abort:
  "e \<noteq> None \<Longrightarrow>
   status (run_actions (case e of None \<Rightarrow> [SetStatus COMPLETED]
      | Some err \<Rightarrow> [Alert (''Scan failed: '' @ message_or_unknown err), SetStatus IDLE]) s)
     = IDLE \<and>
   processedCount (run_actions (case e of None \<Rightarrow> [SetStatus COMPLETED]
      | Some err \<Rightarrow> [Alert (''Scan failed: '' @ message_or_unknown err), SetStatus IDLE]) s)
     = processedCount s \<and>
   (\<forall>j. SetProcessedCount j \<notin> set (case e of None \<Rightarrow> [SetStatus COMPLETED]
      | Some err \<Rightarrow> [Alert (''Scan failed: '' @ message_or_unknown err), SetStatus IDLE]))"
  by (cases e) simp_all










section \<open>Properties of \<open>startScan\<close>\<close>

text \<open>
  Claim C10. Starting a scan with unmet preconditions is a no-op: when no reference
  image is set (\<open>null\<close> or the empty string), or no source is selected (no directory
  handle and an empty legacy list), \<open>startScan\<close> performs no effect at all, so the run
  state, the results, the progress, the processed count and the total count keep their
  values.
\<close>

theorem startScan_without_preconditions:
  assumes "refImage s = None \<or> refImage s = Some [] \<or>
           (folderHandle s = None \<and> legacyFiles s = [])"
  shows "startScan env s = [] \<and> run_actions (startScan env s) s = s"
  using assms by (auto simp: startScan_def hasSource_def split: option.splits)

theorem startScan_without_preconditions_witness:
  "refImage initial_state = None \<and>
   startScan (sample_env [] (\<lambda>i. Inl [])) initial_state = [] \<and>
   run_actions (startScan (sample_env [] (\<lambda>i. Inl [])) initial_state) initial_state
     = initial_state \<and>
   status initial_state = IDLE"
  using startScan_without_preconditions [of initial_state "sample_env [] (\<lambda>i. Inl [])"]
  by (simp add: initial_state_def)




text \<open>
  Claim C2, as stated, fails: a fatal error on a candidate does not empty the result
  set. In the sample run candidate 1 is accepted and the evaluation of candidate 2
  throws; the run ends in \<open>IDLE\<close> and the result of candidate 1 is still there.
\<close>

theorem abort_discards_results_counterexample:
  "verdict_at (sample_env sample_two sample_verdicts_abort) ''round face, brown eyes''
     [Handled (FileHandle ''a.jpg'') (JsFile ''a.jpg'' ''bytes of a.jpg''),
      Handled (FileHandle ''b.png'') (JsFile ''b.png'' ''bytes of b.png'')] 1 = None \<and>
   status (run_actions (startScan (sample_env sample_two sample_verdicts_abort) sample_state)
             sample_state) = IDLE \<and>
   results (run_actions (startScan (sample_env sample_two sample_verdicts_abort) sample_state)
             sample_state) \<noteq> [] \<and>
   map fileName (results (run_actions
      (startScan (sample_env sample_two sample_verdicts_abort) sample_state) sample_state))
     = [''a.jpg'']"
  by code_simp

text \<open>
  Claim C2, amended. When the processing of candidate \<open>k + 1\<close> (index \<open>k\<close>) is the first
  to raise, the run stops there: the run state returns to \<open>IDLE\<close>, the processed count
  stays at \<open>k + 1\<close> and no later candidate is started, exactly the candidates before it
  received a verdict, and the result set is not emptied: it holds the results of the
  accepted candidates among those.
\<close>

theorem abort_keeps_earlier_results:
  assumes "refImage s = Some img" and "img \<noteq> []" and "hasSource s"
    and "analyzeFaceProfile (describe_call env) img = Inr d"
    and "enumerate_source env (folderHandle s) (legacyFiles s) = Inr fs"
    and "k < length fs" and "verdict_at env d fs k = None"
    and "\<forall>i<k. verdict_at env d fs i \<noteq> None"
  shows "status (run_actions (startScan env s) s) = IDLE \<and>
         processedCount (run_actions (startScan env s) s) = k + 1 \<and>
         (\<forall>j. SetProcessedCount j \<in> set (startScan env s) \<longrightarrow> j \<le> k + 1) \<and>
         map fst (verdicts_received env d fs) = [0..<k] \<and>
         results (run_actions (startScan env s) s) =
           [result_for fs (i, b, v). (i, b, v) \<leftarrow> verdicts_received env d fs,
              v_match v = True \<and> v_confidence v > 6 / 10]"
proof -
  have pre: "\<forall>j. 0 \<le> j \<and> j < k \<longrightarrow> verdict_at env d fs j \<noteq> None"
    using assms(8) by simp
  note ab = scan_loop_abort [OF assms(6) assms(7) le0 pre]
  note sc = startScan_enumerated [OF assms(1-5)]
  have e: "snd (scan_loop env d fs 0) \<noteq> None" using ab by blast
  have "status (run_actions (startScan env s) s) = IDLE"
    by (simp add: sc run_actions_append after_abort [OF e])
  moreover have "processedCount (run_actions (startScan env s) s) = k + 1"
    using ab by (simp add: sc run_actions_append after_abort [OF e])
  moreover have "\<forall>j. SetProcessedCount j \<in> set (startScan env s) \<longrightarrow> j \<le> k + 1"
    using ab after_abort [OF e] by (auto simp: sc)
  moreover have "map fst (verdicts_received env d fs) = [0..<k]"
    using ab by (simp add: verdicts_received_def)
  moreover have "results (run_actions (startScan env s) s) =
           [result_for fs (i, b, v). (i, b, v) \<leftarrow> verdicts_received env d fs,
              v_match v = True \<and> v_confidence v > 6 / 10]"
    by (simp add: sc run_actions_append results_after_loop
          scan_loop_results verdicts_received_def)
  ultimately show ?thesis by blast
qed

theorem abort_keeps_earlier_results_witness:
  "status (run_actions (startScan (sample_env sample_two sample_verdicts_abort) sample_state)
             sample_state) = IDLE \<and>
   processedCount (run_actions
      (startScan (sample_env sample_two sample_verdicts_abort) sample_state) sample_state) = 2 \<and>
   map fileName (results (run_actions
      (startScan (sample_env sample_two sample_verdicts_abort) sample_state) sample_state))
     = [''a.jpg'']"
proof -
  let ?env = "sample_env sample_two sample_verdicts_abort"
  let ?fs = "[Handled (FileHandle ''a.jpg'') (JsFile ''a.jpg'' ''bytes of a.jpg''),
              Handled (FileHandle ''b.png'') (JsFile ''b.png'' ''bytes of b.png'')]"
  have h1: "refImage sample_state = Some ''data:image/jpeg;base64,AAAA''"
    by (simp add: sample_state_def)
  have h2: "''data:image/jpeg;base64,AAAA'' \<noteq> []" by simp
  have h3: "hasSource sample_state" by (simp add: hasSource_def sample_state_def)
  have h4: "analyzeFaceProfile (describe_call ?env) ''data:image/jpeg;base64,AAAA''
              = Inr ''round face, brown eyes''"
    by code_simp
  have h5: "enumerate_source ?env (folderHandle sample_state) (legacyFiles sample_state)
              = Inr ?fs"
    by code_simp
  have h6: "1 < length ?fs" by simp
  have h7: "verdict_at ?env ''round face, brown eyes'' ?fs 1 = None" by code_simp
  have h8: "\<forall>i<1. verdict_at ?env ''round face, brown eyes'' ?fs i \<noteq> None"
  proof -
    have "verdict_at ?env ''round face, brown eyes'' ?fs 0 \<noteq> None" by code_simp
    then show ?thesis by simp
  qed
  have "map fileName
          [result_for ?fs (i, b, v).
             (i, b, v) \<leftarrow> verdicts_received ?env ''round face, brown eyes'' ?fs,
             v_match v = True \<and> v_confidence v > 6 / 10] = [''a.jpg'']"
    by code_simp
  with abort_keeps_earlier_results [OF h1 h2 h3 h4 h5 h6 h7 h8] show ?thesis by simp
qed

text \<open>
  Claim C4, as stated, fails: a run over a directory without image files completes,
  but its progress is not 100.
\<close>

theorem empty_scan_progress_counterexample:
  "enumerate_source (sample_env sample_no_images sample_verdicts_abort)
      (folderHandle sample_state) (legacyFiles sample_state) = Inr [] \<and>
   status (run_actions (startScan (sample_env sample_no_images sample_verdicts_abort)
      sample_state) sample_state) = COMPLETED \<and>
   progress (run_actions (startScan (sample_env sample_no_images sample_verdicts_abort)
      sample_state) sample_state) \<noteq> 100"
  by code_simp

text \<open>
  Claim C4, amended. A run whose enumeration yields no candidate performs exactly the
  effects listed: it goes through \<open>INITIALIZING\<close> and \<open>SCANNING\<close> to \<open>COMPLETED\<close> with an
  empty result set, a processed count and a total count of 0, and a progress of 0: the
  only progress update of the run is the reset to 0 made when it starts.
\<close>

theorem empty_scan:
  assumes "refImage s = Some img" and "img \<noteq> []" and "hasSource s"
    and "analyzeFaceProfile (describe_call env) img = Inr d"
    and "enumerate_source env (folderHandle s) (legacyFiles s) = Inr []"
  shows "startScan env s =
           [SetStatus INITIALIZING, SetResults [], SetProcessedCount 0, SetProgress 0,
            SetProfile \<lparr>description = d, originalImage = img\<rparr>,
            SetTotalFiles 0, SetStatus SCANNING, SetStatus COMPLETED] \<and>
         status (run_actions (startScan env s) s) = COMPLETED \<and>
         results (run_actions (startScan env s) s) = [] \<and>
         progress (run_actions (startScan env s) s) = 0 \<and>
         processedCount (run_actions (startScan env s) s) = 0 \<and>
         totalFiles (run_actions (startScan env s) s) = 0 \<and>
         [p. SetProgress p \<leftarrow> startScan env s] = [0]"
  by (simp add: startScan_enumerated [OF assms] scan_loop_done)

theorem empty_scan_witness:
  "status (run_actions (startScan (sample_env sample_no_images sample_verdicts_abort)
      sample_state) sample_state) = COMPLETED \<and>
   progress (run_actions (startScan (sample_env sample_no_images sample_verdicts_abort)
      sample_state) sample_state) = 0 \<and>
   totalFiles (run_actions (startScan (sample_env sample_no_images sample_verdicts_abort)
      sample_state) sample_state) = 0"
proof -
  let ?env = "sample_env sample_no_images sample_verdicts_abort"
  have h1: "refImage sample_state = Some ''data:image/jpeg;base64,AAAA''"
    by (simp add: sample_state_def)
  have h2: "''data:image/jpeg;base64,AAAA'' \<noteq> []" by simp
  have h3: "hasSource sample_state" by (simp add: hasSource_def sample_state_def)
  have h4: "analyzeFaceProfile (describe_call ?env) ''data:image/jpeg;base64,AAAA''
              = Inr ''round face, brown eyes''"
    by code_simp
  have h5: "enumerate_source ?env (folderHandle sample_state) (legacyFiles sample_state)
              = Inr []"
    by code_simp
  from empty_scan [OF h1 h2 h3 h4 h5] show ?thesis by blast
qed



section \<open>Properties of \<open>checkFaceMatch\<close>\<close>

text \<open>
  Every parser hands back an input strictly shorter than the one it was given, so the
  length tests inside \<open>parse_elements\<close> and \<open>parse_members\<close> always succeed: they never
  turn a text that parses into a \<open>SyntaxError\<close>.
\<close>

lemma skip_ws_length: "length (skip_ws cs) \<le> length cs"
  by (simp add: skip_ws_def length_dropWhile_le)

lemma parse_chars_shorter: "parse_chars cs = Some (str, r) \<Longrightarrow> length r < length cs"
proof (induction cs arbitrary: str r rule: parse_chars.induct)
  case 1
  then show ?case by simp
next
  case (2 c cs)
  then show ?case
    by (auto simp: cons_char_def split: if_splits list.splits option.splits) fastforce+
qed

lemma parse_int_part_shorter: "parse_int_part cs = Some (ip, r) \<Longrightarrow> length r < length cs"
  using length_dropWhile_le [of is_digit "tl cs"]
  by (auto simp: parse_int_part_def split: list.splits if_splits)

lemma parse_frac_shorter: "parse_frac cs = Some (fp, r) \<Longrightarrow> length r \<le> length cs"
  using length_dropWhile_le [of is_digit "tl cs"]
  by (auto simp: parse_frac_def split: list.splits if_splits)

lemma parse_exp_shorter: "parse_exp cs = Some (e, r) \<Longrightarrow> length r \<le> length cs"
  using length_dropWhile_le [of is_digit "tl cs"] length_dropWhile_le [of is_digit "tl (tl cs)"]
  by (auto simp: parse_exp_def Let_def split: list.splits if_splits)

lemma parse_number_shorter: "parse_number cs = Some (x, r) \<Longrightarrow> length r < length cs"
proof -
  assume a: "parse_number cs = Some (x, r)"
  let ?cs1 = "if (case cs of [] \<Rightarrow> False | x # _ \<Rightarrow> x = 45) then tl cs else cs"
  from a obtain ip r1 fp r2 e where
    i: "parse_int_part ?cs1 = Some (ip, r1)" and f: "parse_frac r1 = Some (fp, r2)"
    and x: "parse_exp r2 = Some (e, r)"
    by (auto simp: parse_number_def Let_def split: option.splits)
  have "length ?cs1 \<le> length cs" by simp
  then show ?thesis
    using parse_int_part_shorter [OF i] parse_frac_shorter [OF f] parse_exp_shorter [OF x]
    by linarith
qed

lemma parse_keyword_shorter:
  "kw \<noteq> [] \<Longrightarrow> parse_keyword kw v cs = Some (w, r) \<Longrightarrow> length r < length cs"
proof -
  assume k: "kw \<noteq> []" and p: "parse_keyword kw v cs = Some (w, r)"
  then have t: "take (length kw) cs = js_str kw" and r: "r = drop (length kw) cs"
    by (auto simp: parse_keyword_def split: if_splits)
  have "length (take (length kw) cs) = length kw" unfolding t by (simp add: js_str_def)
  then have "length kw \<le> length cs" by simp
  then show ?thesis using k r by (cases kw) auto
qed


lemma parse_shorter:
  "(\<forall>v r. parse_value cs = Some (v, r) \<longrightarrow> length r < length cs)"
  "(\<forall>vs r. parse_elements cs1 = Some (vs, r) \<longrightarrow> length r < length cs1)"
  "(\<forall>ms r. parse_members cs2 = Some (ms, r) \<longrightarrow> length r < length cs2)"
proof (induction cs and cs1 and cs2 rule: parse_value_parse_elements_parse_members.induct)
  case (1 cs)
  show ?case
  proof (intro allI impI)
    fix v r
    assume p: "parse_value cs = Some (v, r)"
    then obtain c r0 where cs: "cs = c # r0"
      by (cases cs) (simp_all add: parse_value.simps)
    have ws: "length (skip_ws r0) \<le> length r0" by (rule skip_ws_length)
    consider (obj) "c = 123" | (arr) "c \<noteq> 123" "c = 91" | (str) "c \<noteq> 123" "c \<noteq> 91" "c = 34"
      | (other) "c \<noteq> 123" "c \<noteq> 91" "c \<noteq> 34"
      by blast
    then show "length r < length cs"
    proof cases
      case obj
      then obtain x t where sk: "skip_ws r0 = x # t"
        using p cs by (cases "skip_ws r0") (simp_all add: parse_value.simps)
      show ?thesis
      proof (cases "x = 125")
        case True
        then have "r = t" using p cs obj sk by (simp add: parse_value.simps)
        then show ?thesis using ws sk cs by simp
      next
        case False
        then obtain ms where "parse_members (skip_ws r0) = Some (ms, r)"
          using p cs obj sk by (auto simp: parse_value.simps split: option.splits)
        then have "length r < length (skip_ws r0)"
          using "1.IH"(1) [OF cs obj sk False] by blast
        then show ?thesis using ws cs by simp
      qed
    next
      case arr
      then obtain x t where sk: "skip_ws r0 = x # t"
        using p cs by (cases "skip_ws r0") (simp_all add: parse_value.simps)
      show ?thesis
      proof (cases "x = 93")
        case True
        then have "r = t" using p cs arr sk by (simp add: parse_value.simps)
        then show ?thesis using ws sk cs by simp
      next
        case False
        then obtain vs where "parse_elements (skip_ws r0) = Some (vs, r)"
          using p cs arr sk by (auto simp: parse_value.simps split: option.splits)
        then have "length r < length (skip_ws r0)"
          using "1.IH"(2) [OF cs arr(1) arr(2) sk False] by blast
        then show ?thesis using ws cs by simp
      qed
    next
      case str
      then obtain st where "parse_chars r0 = Some (st, r)"
        using p cs by (auto simp: parse_value.simps split: option.splits)
      then show ?thesis using parse_chars_shorter cs by fastforce
    next
      case other
      then have "parse_keyword ''true'' (JBool True) cs = Some (v, r) \<or>
                 parse_keyword ''false'' (JBool False) cs = Some (v, r) \<or>
                 parse_keyword ''null'' JNull cs = Some (v, r) \<or>
                 (\<exists>x. parse_number cs = Some (x, r))"
        using p cs by (auto simp: parse_value.simps split: option.splits if_splits)
      then show ?thesis
        using parse_keyword_shorter parse_number_shorter by fastforce
    qed
  qed
next
  case (2 cs)
  show ?case
  proof (intro allI impI)
    fix vs r
    assume p: "parse_elements cs = Some (vs, r)"
    then obtain v r1 where pv: "parse_value cs = Some (v, r1)" and lt: "length r1 < length cs"
      by (auto simp: parse_elements.simps split: option.splits if_splits)
    obtain x t where sk: "skip_ws r1 = x # t"
      using p pv lt by (cases "skip_ws r1") (simp_all add: parse_elements.simps)
    have ws: "length (skip_ws r1) \<le> length r1" by (rule skip_ws_length)
    have wt: "length (skip_ws t) \<le> length t" by (rule skip_ws_length)
    show "length r < length cs"
    proof (cases "x = 93")
      case True
      then have "r = t" using p pv lt sk by (simp add: parse_elements.simps)
      then show ?thesis using ws sk lt by simp
    next
      case False
      then have x: "x = 44" and "\<exists>ws. parse_elements (skip_ws t) = Some (ws, r)"
        using p pv lt sk by (auto simp: parse_elements.simps split: option.splits if_splits)
      then obtain ws' where "parse_elements (skip_ws t) = Some (ws', r)" by blast
      then have "length r < length (skip_ws t)"
        using "2.IH"(2) [OF pv refl lt sk False x] by blast
      then show ?thesis using wt ws sk lt by simp
    qed
  qed
next
  case (3 cs)
  show ?case
  proof (intro allI impI)
    fix ms r
    assume p: "parse_members cs = Some (ms, r)"
    then obtain q r0 where cs: "cs = q # r0"
      by (cases cs) (simp_all add: parse_members.simps)
    from p cs have q: "q = 34"
      by (auto simp: parse_members.simps split: if_splits)
    from p cs q obtain key r1 where pc: "parse_chars r0 = Some (key, r1)"
      by (auto simp: parse_members.simps split: option.splits)
    from p cs q pc obtain colon r2 where sk1: "skip_ws r1 = colon # r2"
      by (cases "skip_ws r1") (simp_all add: parse_members.simps)
    from p cs q pc sk1 have g: "colon = 58 \<and> length (skip_ws r2) < length cs"
      by (auto simp: parse_members.simps split: if_splits)
    from p cs q pc sk1 g obtain v r3 where pv: "parse_value (skip_ws r2) = Some (v, r3)"
      and lt: "length r3 < length cs"
      by (auto simp: parse_members.simps split: option.splits if_splits)
    from p cs q pc sk1 g pv lt obtain x t where sk: "skip_ws r3 = x # t"
      by (cases "skip_ws r3") (simp_all add: parse_members.simps)
    have ws: "length (skip_ws r3) \<le> length r3" by (rule skip_ws_length)
    have wt: "length (skip_ws t) \<le> length t" by (rule skip_ws_length)
    show "length r < length cs"
    proof (cases "x = 125")
      case True
      then have "r = t" using p cs q pc sk1 g pv lt sk by (simp add: parse_members.simps)
      then show ?thesis using ws sk lt by simp
    next
      case False
      then have x: "x = 44" and "\<exists>ms'. parse_members (skip_ws t) = Some (ms', r)"
        using p cs q pc sk1 g pv lt sk
        by (auto simp: parse_members.simps split: option.splits if_splits)
      then obtain ms' where "parse_members (skip_ws t) = Some (ms', r)" by blast
      then have "length r < length (skip_ws t)"
        using "3.IH"(2) [OF cs q pc refl sk1 g pv refl lt sk False x] by blast
      then show ?thesis using wt ws sk lt by simp
    qed
  qed
qed

lemma parse_members_guard:
  assumes "cs = q # r0" and "parse_chars r0 = Some (key, r1)" and "skip_ws r1 = colon # r2"
  shows "length (skip_ws r2) < length cs"
proof -
  have "length r1 < length r0" using assms(2) by (rule parse_chars_shorter)
  moreover have "length (skip_ws r1) \<le> length r1" by (rule skip_ws_length)
  moreover have "length (skip_ws r2) \<le> length r2" by (rule skip_ws_length)
  ultimately show ?thesis using assms(1,3) by simp
qed

lemma parse_default_text: "JSON_parse default_text = Some fallback_verdict"
  by code_simp

lemma fallback_well_formed: "well_formed_verdict fallback_verdict"
  by code_simp

text \<open>
  Claim C3, as stated, fails: the result is not checked against the verdict shape. When
  the classifier answers the valid JSON text \<open>null\<close>, \<open>checkFaceMatch\<close> returns \<open>null\<close>,
  which is neither a well-formed verdict nor the fallback.
\<close>

theorem checkFaceMatch_unchecked_shape_counterexample:
  "checkFaceMatch null_response ''round face, brown eyes'' ''data:image/png;base64,AAAA''
     = Inr JNull \<and>
   \<not> well_formed_verdict JNull \<and> JNull \<noteq> fallback_verdict"
proof -
  have "checkFaceMatch null_response ''round face, brown eyes''
          ''data:image/png;base64,AAAA'' = Inr JNull"
    by code_simp
  moreover have "\<not> well_formed_verdict JNull" by (simp add: well_formed_verdict_def)
  moreover have "JNull \<noteq> fallback_verdict" by (simp add: fallback_verdict_def)
  ultimately show ?thesis by blast
qed

text \<open>
  Claim C3, amended. Once the classifier has answered, \<open>checkFaceMatch\<close> returns without
  raising. When the response text is absent or empty, or is not valid JSON, the result is
  exactly \<open>{match: false, confidence: 0}\<close>, a well-formed verdict. When the text is valid
  JSON, the result is the parsed value as it is, whatever its shape.
\<close>

theorem checkFaceMatch_result:
  assumes "generateContent (inline_data b) (match_prompt d) = Inr text"
  shows "(\<exists>v. checkFaceMatch generateContent d b = Inr v) \<and>
         (text = None \<or> text = Some [] \<longrightarrow>
            checkFaceMatch generateContent d b = Inr fallback_verdict) \<and>
         (\<forall>t. text = Some t \<and> JSON_parse t = None \<longrightarrow>
            checkFaceMatch generateContent d b = Inr fallback_verdict) \<and>
         (\<forall>t v. text = Some t \<and> t \<noteq> [] \<and> JSON_parse t = Some v \<longrightarrow>
            checkFaceMatch generateContent d b = Inr v) \<and>
         well_formed_verdict fallback_verdict"
  using assms parse_default_text fallback_well_formed
  by (auto simp: checkFaceMatch_def text_or_default_def split: option.splits)

theorem checkFaceMatch_result_witness:
  "garbage_response (inline_data ''data:image/png;base64,AAAA'')
      (match_prompt ''round face, brown eyes'') = Inr (Some (js_str ''not-json'')) \<and>
   JSON_parse (js_str ''not-json'') = None \<and>
   checkFaceMatch garbage_response ''round face, brown eyes'' ''data:image/png;base64,AAAA''
     = Inr fallback_verdict"
proof -
  have h: "garbage_response (inline_data ''data:image/png;base64,AAAA'')
      (match_prompt ''round face, brown eyes'') = Inr (Some (js_str ''not-json''))"
    by (simp add: garbage_response_def)
  have p: "JSON_parse (js_str ''not-json'') = None" by code_simp
  from checkFaceMatch_result [where generateContent = garbage_response
      and b = "''data:image/png;base64,AAAA''" and d = "''round face, brown eyes''", OF h] p h
  show ?thesis by blast
qed

section \<open>Properties of the enumeration\<close>





















section \<open>Properties of \<open>organizeFiles\<close>\<close>

lemma written_Nil [simp]: "written files [] d = d"
  by (simp add: written_def)

lemma written_Cons [simp]:
  "written files (r # rs) d =
   written files rs (case copy_of files r of None \<Rightarrow> d | Some b \<Rightarrow> d(fileName r \<mapsto> b))"
  by (simp add: written_def)

lemma written_append:
  "written files (xs @ ys) d = written files ys (written files xs d)"
  by (simp add: written_def)

lemma written_untouched:
  "nm \<notin> fileName ` set rs \<Longrightarrow> written files rs d nm = d nm"
  by (induction rs arbitrary: d) (auto split: option.splits)




lemma written_last:
  "i < length rs \<Longrightarrow> \<forall>j. i < j \<and> j < length rs \<longrightarrow> fileName (rs ! j) \<noteq> fileName (rs ! i) \<Longrightarrow>
   copy_of files (rs ! i) = Some b \<Longrightarrow>
   written files rs d (fileName (rs ! i)) = Some b"
proof (induction rs arbitrary: i d)
  case Nil
  then show ?case by simp
next
  case (Cons r rs)
  show ?case
  proof (cases i)
    case 0
    have "fileName r \<notin> fileName ` set rs"
    proof
      assume "fileName r \<in> fileName ` set rs"
      then obtain j where "j < length rs" "fileName (rs ! j) = fileName r"
        by (auto simp: in_set_conv_nth)
      then show False using Cons.prems(2) 0 by (auto dest: spec [of _ "Suc j"])
    qed
    then show ?thesis using 0 Cons.prems(3) by (simp add: written_untouched)
  next
    case (Suc m)
    have "\<forall>j. m < j \<and> j < length rs \<longrightarrow> fileName (rs ! j) \<noteq> fileName (rs ! m)"
      using Cons.prems(2) Suc by (auto dest: spec [of _ "Suc j" for j])
    then show ?thesis using Suc Cons.prems Cons.IH [of m] by simp
  qed
qed

lemma create_then_write:
  "(if d k = None then d(k \<mapsto> []) else d)(k \<mapsto> b) = d(k \<mapsto> b)"
  by auto

lemma organize_loop_ok_step:
  "iteration_ok flt files i r \<Longrightarrow>
   organize_loop flt files (r # rs) i d =
   organize_loop flt files rs (i + 1)
     (case copy_of files r of None \<Rightarrow> d | Some b \<Rightarrow> d(fileName r \<mapsto> b))"
  by (auto simp: iteration_ok_def copy_of_def create_then_write Let_def split: option.splits)

lemma organize_loop_bad_step:
  "\<not> iteration_ok flt files i r \<Longrightarrow>
   snd (organize_loop flt files (r # rs) i d) \<noteq> None \<and>
   (fst (organize_loop flt files (r # rs) i d) = d \<or>
    d (fileName r) = None \<and>
    fst (organize_loop flt files (r # rs) i d) = d(fileName r \<mapsto> []))"
  by (auto simp: iteration_ok_def copy_of_def Let_def split: option.splits)

declare organize_loop.simps(2) [simp del]



lemma organize_loop_failure:
  "k < length rs \<Longrightarrow> \<forall>j < k. iteration_ok flt files (i + j) (rs ! j) \<Longrightarrow>
   \<not> iteration_ok flt files (i + k) (rs ! k) \<Longrightarrow>
   snd (organize_loop flt files rs i d) \<noteq> None \<and>
   (fst (organize_loop flt files rs i d) = written files (take k rs) d \<or>
    written files (take k rs) d (fileName (rs ! k)) = None \<and>
    fst (organize_loop flt files rs i d) =
      (written files (take k rs) d)(fileName (rs ! k) \<mapsto> []))"
proof (induction rs arbitrary: i k d)
  case Nil
  then show ?case by simp
next
  case (Cons r rs)
  show ?case
  proof (cases k)
    case 0
    have t: "take k (r # rs) = []" "(r # rs) ! k = r" "i + k = i" using 0 by simp_all
    have "\<not> iteration_ok flt files i r" using Cons.prems(3) unfolding t .
    then show ?thesis unfolding t written_Nil by (rule organize_loop_bad_step)
  next
    case (Suc m)
    have first: "iteration_ok flt files i r" using Cons.prems(2) Suc by (auto dest: spec [of _ 0])
    have rest: "\<forall>j < m. iteration_ok flt files (i + 1 + j) (rs ! j)"
      using Cons.prems(2) Suc by (auto dest: spec [of _ "Suc j" for j])
    have bad: "\<not> iteration_ok flt files (i + 1 + m) (rs ! m)"
      using Cons.prems(3) Suc by simp
    have m: "m < length rs" using Cons.prems(1) Suc by simp
    show ?thesis
      unfolding organize_loop_ok_step [OF first]
      using Cons.IH [OF m rest bad] Suc by simp
  qed
qed


lemma organize_try_started:
  "dir_fault flt = None \<Longrightarrow> root_files st ''CyberScan_Matches'' = None \<Longrightarrow>
   organize_try flt st rs =
     (st\<lparr>matches_dir := Some (fst (organize_loop (step_fault flt) (root_files st) rs 0
                                     (initial_dir st)))\<rparr>,
      snd (organize_loop (step_fault flt) (root_files st) rs 0 (initial_dir st)))"
  by (simp add: organize_try_def initial_dir_def Let_def)


text \<open>
  Claim C7. When the loop of \<open>organizeFiles\<close> fails in iteration \<open>k\<close> (a handle that is
  missing or reads nothing, or any of the five awaited steps throwing, a failed write
  among them) after \<open>k\<close> good iterations: the handler alerts the failure and sets the run
  state to \<open>COMPLETED\<close>, the result list is as before; the subdirectory holds what
  copying the first \<open>k\<close> results left there, with at most an empty entry made for result
  \<open>k\<close>, so no later result is written; and each of the first \<open>k\<close> results that no later
  one among them overwrote is there with the bytes read through its handle.
\<close>

theorem organize_failure_keeps_written_files:
  assumes "folderHandle s \<noteq> None" and "results s \<noteq> []"
    and "dir_fault flt = None" and "root_files st ''CyberScan_Matches'' = None"
    and "k < length (results s)"
    and "\<forall>i<k. iteration_ok (step_fault flt) (root_files st) i (results s ! i)"
    and "\<not> iteration_ok (step_fault flt) (root_files st) k (results s ! k)"
  shows "\<exists>err d'.
     organizeFiles flt st s =
       ([SetStatus ORGANIZING, Alert (''Failed: '' @ message_or_unknown err),
         SetStatus COMPLETED],
        st\<lparr>matches_dir := Some d'\<rparr>) \<and>
     (d' = written (root_files st) (take k (results s)) (initial_dir st) \<or>
      written (root_files st) (take k (results s)) (initial_dir st)
        (fileName (results s ! k)) = None \<and>
      d' = (written (root_files st) (take k (results s)) (initial_dir st))
             (fileName (results s ! k) \<mapsto> [])) \<and>
     (\<forall>i<k. (\<forall>j. i < j \<and> j < k \<longrightarrow> fileName (results s ! j) \<noteq> fileName (results s ! i)) \<longrightarrow>
        d' (fileName (results s ! i)) = copy_of (root_files st) (results s ! i) \<and>
        d' (fileName (results s ! i)) \<noteq> None) \<and>
     status (run_actions (fst (organizeFiles flt st s)) s) = COMPLETED \<and>
     results (run_actions (fst (organizeFiles flt st s)) s) = results s"
proof -
  let ?rs = "results s"
  let ?W = "written (root_files st) (take k ?rs) (initial_dir st)"
  let ?out = "organize_loop (step_fault flt) (root_files st) ?rs 0 (initial_dir st)"
  have ok: "\<forall>j<k. iteration_ok (step_fault flt) (root_files st) (0 + j) (?rs ! j)"
    using assms(6) by simp
  have bad: "\<not> iteration_ok (step_fault flt) (root_files st) (0 + k) (?rs ! k)"
    using assms(7) by simp
  note fl = organize_loop_failure [OF assms(5) ok bad, of "initial_dir st"]
  from fl obtain err where err: "snd ?out = Some err" by blast
  have shape: "fst ?out = ?W \<or> ?W (fileName (?rs ! k)) = None \<and>
                 fst ?out = ?W(fileName (?rs ! k) \<mapsto> [])"
    using fl by blast
  have run: "organizeFiles flt st s =
       ([SetStatus ORGANIZING, Alert (''Failed: '' @ message_or_unknown err),
         SetStatus COMPLETED],
        st\<lparr>matches_dir := Some (fst ?out)\<rparr>)"
    using assms(1,2) err
    by (simp add: organizeFiles_def organize_try_started [OF assms(3,4)] Let_def)
  have kept: "fst ?out (fileName (?rs ! i)) = copy_of (root_files st) (?rs ! i) \<and>
              fst ?out (fileName (?rs ! i)) \<noteq> None"
    if i: "i < k" and last: "\<forall>j. i < j \<and> j < k \<longrightarrow> fileName (?rs ! j) \<noteq> fileName (?rs ! i)"
    for i
  proof -
    have "iteration_ok (step_fault flt) (root_files st) i (?rs ! i)"
      using assms(6) i by blast
    then obtain b where b: "copy_of (root_files st) (?rs ! i) = Some b"
      by (auto simp: iteration_ok_def)
    have il: "i < length (take k ?rs)" using i assms(5) by simp
    have nth: "take k ?rs ! j = ?rs ! j" if "j < k" for j using that by simp
    have last': "\<forall>j. i < j \<and> j < length (take k ?rs) \<longrightarrow>
                   fileName (take k ?rs ! j) \<noteq> fileName (take k ?rs ! i)"
      using last i assms(5) by (simp add: nth)
    have cp: "copy_of (root_files st) (take k ?rs ! i) = Some b"
      using b i by (simp add: nth)
    have w: "?W (fileName (?rs ! i)) = Some b"
      using written_last [OF il last' cp, of "initial_dir st"] i by (simp add: nth)
    show ?thesis
    proof (cases "fst ?out = ?W")
      case True
      then show ?thesis using w b by simp
    next
      case False
      then have none: "?W (fileName (?rs ! k)) = None"
        and upd: "fst ?out = ?W(fileName (?rs ! k) \<mapsto> [])"
        using shape by blast+
      have "fileName (?rs ! k) \<noteq> fileName (?rs ! i)" using none w by auto
      then show ?thesis using w b upd by simp
    qed
  qed
  have after: "status (run_actions (fst (organizeFiles flt st s)) s) = COMPLETED \<and>
     results (run_actions (fst (organizeFiles flt st s)) s) = results s"
    by (simp add: run)
  show ?thesis
  proof (intro exI [of _ err] exI [of _ "fst ?out"] conjI)
    show "organizeFiles flt st s =
       ([SetStatus ORGANIZING, Alert (''Failed: '' @ message_or_unknown err),
         SetStatus COMPLETED],
        st\<lparr>matches_dir := Some (fst ?out)\<rparr>)" by (rule run)
    show "fst ?out = ?W \<or> ?W (fileName (?rs ! k)) = None \<and>
                 fst ?out = ?W(fileName (?rs ! k) \<mapsto> [])" by (rule shape)
    show "\<forall>i<k. (\<forall>j. i < j \<and> j < k \<longrightarrow> fileName (?rs ! j) \<noteq> fileName (?rs ! i)) \<longrightarrow>
        fst ?out (fileName (?rs ! i)) = copy_of (root_files st) (?rs ! i) \<and>
        fst ?out (fileName (?rs ! i)) \<noteq> None"
      using kept by blast
    show "status (run_actions (fst (organizeFiles flt st s)) s) = COMPLETED"
      using after by blast
    show "results (run_actions (fst (organizeFiles flt st s)) s) = results s"
      using after by blast
  qed
qed

theorem organize_failure_keeps_written_files_witness:
  "\<exists>err d'.
     organizeFiles (write_fault 1) sample_storage sample_completed =
       ([SetStatus ORGANIZING, Alert (''Failed: '' @ message_or_unknown err),
         SetStatus COMPLETED],
        sample_storage\<lparr>matches_dir := Some d'\<rparr>) \<and>
     d' ''a.jpg'' = Some ''bytes of a.jpg'' \<and>
     status (run_actions (fst (organizeFiles (write_fault 1) sample_storage sample_completed))
               sample_completed) = COMPLETED \<and>
     results (run_actions (fst (organizeFiles (write_fault 1) sample_storage sample_completed))
               sample_completed) = sample_results"
proof -
  have h1: "folderHandle sample_completed \<noteq> None"
    by (simp add: sample_completed_def sample_state_def)
  have rs: "results sample_completed = sample_results"
    by (simp add: sample_completed_def)
  have h2: "results sample_completed \<noteq> []" by (simp add: rs sample_results_def)
  have h3: "dir_fault (write_fault 1) = None" by (simp add: write_fault_def)
  have h4: "root_files sample_storage ''CyberScan_Matches'' = None" by code_simp
  have h5: "1 < length (results sample_completed)" by (simp add: rs sample_results_def)
  have ok0: "iteration_ok (step_fault (write_fault 1)) (root_files sample_storage) 0
               (results sample_completed ! 0)"
    by code_simp
  have h6: "\<forall>i<1. iteration_ok (step_fault (write_fault 1)) (root_files sample_storage) i
               (results sample_completed ! i)"
    using ok0 by simp
  have h7: "\<not> iteration_ok (step_fault (write_fault 1)) (root_files sample_storage) 1
               (results sample_completed ! 1)"
    by code_simp
  have nm: "fileName (results sample_completed ! 0) = ''a.jpg''" by code_simp
  have cp: "copy_of (root_files sample_storage) (results sample_completed ! 0)
              = Some ''bytes of a.jpg''" by code_simp
  from organize_failure_keeps_written_files [OF h1 h2 h3 h4 h5 h6 h7]
  obtain err d' where
    run: "organizeFiles (write_fault 1) sample_storage sample_completed =
       ([SetStatus ORGANIZING, Alert (''Failed: '' @ message_or_unknown err),
         SetStatus COMPLETED],
        sample_storage\<lparr>matches_dir := Some d'\<rparr>)"
    and kept: "\<forall>i<1. (\<forall>j. i < j \<and> j < 1 \<longrightarrow>
          fileName (results sample_completed ! j) \<noteq> fileName (results sample_completed ! i)) \<longrightarrow>
        d' (fileName (results sample_completed ! i))
          = copy_of (root_files sample_storage) (results sample_completed ! i) \<and>
        d' (fileName (results sample_completed ! i)) \<noteq> None"
    and fin: "status (run_actions
        (fst (organizeFiles (write_fault 1) sample_storage sample_completed))
        sample_completed) = COMPLETED"
      "results (run_actions
        (fst (organizeFiles (write_fault 1) sample_storage sample_completed))
        sample_completed) = results sample_completed"
    by blast
  have "d' (fileName (results sample_completed ! 0))
          = copy_of (root_files sample_storage) (results sample_completed ! 0)"
    using kept by auto
  then have a: "d' ''a.jpg'' = Some ''bytes of a.jpg''" unfolding nm cp .
  show ?thesis
    using run a fin unfolding rs by blast
qed




section \<open>Properties of the run-state machine\<close>












end
